theory Spec2Isabelle
  imports Main "HOL-Library.Sublist"
begin

section \<open>Go values shared by the sources\<close>

text \<open>
  A run-time panic of the Go program is a value of the model: every operation that can
  panic returns \<open>panic + 'a\<close>, with \<open>Inl\<close> for the panic.
\<close>

datatype panic = IndexOutOfRange | SliceBoundsOutOfRange | NilDereference

text \<open>
  A Go slice is a window of \<open>len\<close> elements onto a backing array of \<open>cap\<close> slots.
  \<open>elems\<close> holds the elements \<open>s[0] .. s[len-1]\<close>; \<open>spare\<close> holds the slots of the
  backing array between \<open>len\<close> and \<open>cap\<close>, which indexing cannot reach but reslicing can.
\<close>

datatype 'a slice = Slice (elems: "'a list") (spare: "'a list")

definition go_len :: "'a slice \<Rightarrow> nat" where
  "go_len s = length (elems s)"

definition go_cap :: "'a slice \<Rightarrow> nat" where
  "go_cap s = length (elems s) + length (spare s)"

text \<open>\<open>s[i]\<close>: panics unless \<open>0 \<le> i < len(s)\<close>.\<close>

definition go_index :: "'a slice \<Rightarrow> int \<Rightarrow> panic + 'a" where
  "go_index s i =
     (if 0 \<le> i \<and> i < int (go_len s) then Inr (elems s ! nat i) else Inl IndexOutOfRange)"

text \<open>\<open>s[i].field = v\<close>, as an update \<open>f\<close> of the element at \<open>i\<close>: the same bounds check.\<close>

definition go_modify :: "'a slice \<Rightarrow> int \<Rightarrow> ('a \<Rightarrow> 'a) \<Rightarrow> panic + 'a slice" where
  "go_modify s i f =
     (if 0 \<le> i \<and> i < int (go_len s)
      then Inr (Slice ((elems s)[nat i := f (elems s ! nat i)]) (spare s))
      else Inl IndexOutOfRange)"

text \<open>\<open>s[:n]\<close>: panics unless \<open>0 \<le> n \<le> cap(s)\<close>; the window is moved, the array is kept.\<close>

definition go_reslice :: "'a slice \<Rightarrow> int \<Rightarrow> panic + 'a slice" where
  "go_reslice s n =
     (if 0 \<le> n \<and> n \<le> int (go_cap s)
      then Inr (Slice (take (nat n) (elems s @ spare s)) (drop (nat n) (elems s @ spare s)))
      else Inl SliceBoundsOutOfRange)"

text \<open>
  \<open>append(s, x)\<close>: with a spare slot the element is written in place; otherwise a larger
  array is allocated. How much larger is the runtime's choice: \<open>grow n\<close> is the number of
  spare slots of the array allocated for \<open>n\<close> old elements, each holding the zero value.
\<close>

definition go_append :: "(nat \<Rightarrow> nat) \<Rightarrow> 'a \<Rightarrow> 'a slice \<Rightarrow> 'a \<Rightarrow> 'a slice" where
  "go_append grow zero s x =
     (if spare s = [] then Slice (elems s @ [x]) (replicate (grow (go_len s)) zero)
      else Slice (elems s @ [x]) (tl (spare s)))"


section \<open>The hash type tracker (visitor/contextual/hashhelper.go)\<close>

datatype HashType = HUNKNOWN | HINTEGER | HSTRING | HCOMPLEX

text \<open>\<open>antlr.Token\<close> is an interface: \<open>None\<close> is its nil value.\<close>

record 'tok hash =
  token :: "'tok option"
  key :: HashType

definition zero_hash :: "'tok hash" where
  "zero_hash = \<lparr>token = None, key = HUNKNOWN\<rparr>"

text \<open>
  \<open>levels\<close> is a Go \<open>int\<close>. It is an \<open>int\<close> here: it moves by one per call and follows the
  length of \<open>hashs\<close>, which memory bounds far below \<open>2^63\<close>.
\<close>

record 'tok hashHelper =
  levels :: int
  hashs :: "'tok hash slice"

definition newHashHelper :: "'tok hashHelper" where
  "newHashHelper = \<lparr>levels = -1, hashs = Slice [] []\<rparr>"

definition newHash :: "(nat \<Rightarrow> nat) \<Rightarrow> 'tok hashHelper \<Rightarrow> 'tok hashHelper" where
  "newHash grow h =
     h\<lparr>levels := levels h + 1, hashs := go_append grow zero_hash (hashs h) zero_hash\<rparr>"

definition setToken :: "'tok option \<Rightarrow> 'tok hashHelper \<Rightarrow> panic + 'tok hashHelper" where
  "setToken t h =
     (if levels h > -1
      then (case go_modify (hashs h) (levels h) (\<lambda>e. e\<lparr>token := t\<rparr>) of
              Inl p \<Rightarrow> Inl p
            | Inr s \<Rightarrow> Inr (h\<lparr>hashs := s\<rparr>))
      else Inr h)"

definition getToken :: "'tok hashHelper \<Rightarrow> panic + 'tok option" where
  "getToken h =
     (case go_index (hashs h) (levels h) of Inl p \<Rightarrow> Inl p | Inr e \<Rightarrow> Inr (token e))"

definition setType :: "HashType \<Rightarrow> 'tok hashHelper \<Rightarrow> panic + 'tok hashHelper" where
  "setType k h =
     (case go_modify (hashs h) (levels h) (\<lambda>e. e\<lparr>key := k\<rparr>) of
        Inl p \<Rightarrow> Inl p
      | Inr s \<Rightarrow> Inr (h\<lparr>hashs := s\<rparr>))"

definition getType :: "'tok hashHelper \<Rightarrow> panic + HashType" where
  "getType h =
     (if levels h > -1
      then (case go_index (hashs h) (levels h) of Inl p \<Rightarrow> Inl p | Inr e \<Rightarrow> Inr (key e))
      else Inr HCOMPLEX)"

definition closeHash :: "'tok hashHelper \<Rightarrow> panic + 'tok hashHelper" where
  "closeHash h =
     (case go_reslice (hashs h) (levels h) of
        Inl p \<Rightarrow> Inl p
      | Inr s \<Rightarrow> Inr (h\<lparr>hashs := s, levels := levels h - 1\<rparr>))"

text \<open>
  The tracker's fields are private: a state the program can be in is one that the
  constructor and the methods produce. A method that panics produces no state.
\<close>

inductive reachable :: "'tok hashHelper \<Rightarrow> bool" where
  r_new: "reachable newHashHelper"
| r_newHash: "reachable h \<Longrightarrow> reachable (newHash grow h)"
| r_setToken: "reachable h \<Longrightarrow> setToken t h = Inr h' \<Longrightarrow> reachable h'"
| r_setType: "reachable h \<Longrightarrow> setType k h = Inr h' \<Longrightarrow> reachable h'"
| r_closeHash: "reachable h \<Longrightarrow> closeHash h = Inr h' \<Longrightarrow> reachable h'"

text \<open>The counter and the list agree: \<open>levels\<close> is the index of the last frame.\<close>

definition in_step :: "'tok hashHelper \<Rightarrow> bool" where
  "in_step h = (levels h = int (go_len (hashs h)) - 1)"

text \<open>Sequences of \<open>newHash\<close>/\<open>closeHash\<close> calls, run until the first panic.\<close>

datatype tracker_call = NewHash | CloseHash

fun calls :: "(nat \<Rightarrow> nat) \<Rightarrow> tracker_call list \<Rightarrow> 'tok hashHelper \<Rightarrow> panic + 'tok hashHelper" where
  "calls grow [] h = Inr h"
| "calls grow (NewHash # cs) h = calls grow cs (newHash grow h)"
| "calls grow (CloseHash # cs) h =
     (case closeHash h of Inl p \<Rightarrow> Inl p | Inr h' \<Rightarrow> calls grow cs h')"

text \<open>
  \<open>nested cs d\<close>: with \<open>d\<close> frames opened so far by the sequence, \<open>cs\<close> closes only frames
  the sequence opened and closes all of them. A balanced sequence is \<open>nested cs 0\<close>.
\<close>

fun nested :: "tracker_call list \<Rightarrow> nat \<Rightarrow> bool" where
  "nested [] d = (d = 0)"
| "nested (NewHash # cs) d = nested cs (Suc d)"
| "nested (CloseHash # cs) d = (0 < d \<and> nested cs (d - 1))"

definition balanced :: "tracker_call list \<Rightarrow> bool" where
  "balanced cs = nested cs 0"

text \<open>Sequences of \<open>setType\<close> calls on the current frame, run until the first panic.\<close>

fun setTypes :: "HashType list \<Rightarrow> 'tok hashHelper \<Rightarrow> panic + 'tok hashHelper" where
  "setTypes [] h = Inr h"
| "setTypes (k # ks) h =
     (case setType k h of Inl p \<Rightarrow> Inl p | Inr h' \<Rightarrow> setTypes ks h')"


text \<open>The type \<open>getType\<close> reports after a sequence of \<open>setType\<close> calls.\<close>

definition typeAfter :: "HashType list \<Rightarrow> 'tok hashHelper \<Rightarrow> panic + HashType" where
  "typeAfter ks h = (case setTypes ks h of Inl p \<Rightarrow> Inl p | Inr h' \<Rightarrow> getType h')"

text \<open>Two concrete trackers: one frame just opened, and one frame typed \<open>HINTEGER\<close>.\<close>

definition fresh_frame :: "string hashHelper" where
  "fresh_frame = newHash (\<lambda>n. n) newHashHelper"

definition int_frame :: "string hashHelper" where
  "int_frame = \<lparr>levels = 0, hashs = Slice [\<lparr>token = None, key = HINTEGER\<rparr>] []\<rparr>"


section \<open>Attributes of the identification table (identification/attribute.go)\<close>

datatype ExpressionType = NEUTRAL | IDENTIFIER | FUNCTION | HASH | ARRAY

text \<open>
  The field \<open>token\<close> of the source is \<open>attr_token\<close> here and the method \<open>getToken\<close> is
  \<open>attribute_getToken\<close>: the tracker above has the same names. \<open>data\<close> is an
  \<open>interface{}\<close>, \<open>None\<close> its nil value.
\<close>

record ('tok, 'd) attribute =
  expression :: ExpressionType
  attr_token :: "'tok option"
  visited :: bool
  data :: "'d option"

text \<open>The constructor's literal leaves \<open>visited\<close> out: it gets Go's zero value, \<open>false\<close>.\<close>

definition NewAttribute :: "ExpressionType \<Rightarrow> 'tok option \<Rightarrow> 'd option \<Rightarrow> ('tok, 'd) attribute" where
  "NewAttribute e t d = \<lparr>expression = e, attr_token = t, visited = False, data = d\<rparr>"

definition attribute_getToken :: "('tok, 'd) attribute \<Rightarrow> 'tok option" where
  "attribute_getToken a = attr_token a"

definition markVisited :: "('tok, 'd) attribute \<Rightarrow> ('tok, 'd) attribute" where
  "markVisited a = a\<lparr>visited := True\<rparr>"

definition wasVisited :: "('tok, 'd) attribute \<Rightarrow> bool" where
  "wasVisited a = visited a"

definition GetType :: "('tok, 'd) attribute \<Rightarrow> ExpressionType" where
  "GetType a = expression a"

definition GetData :: "('tok, 'd) attribute \<Rightarrow> 'd option" where
  "GetData a = data a"

text \<open>
  The methods of the file, as calls on one attribute. The receiver is a pointer:
  \<open>after_call c a\<close> is the attribute after the call. Only \<open>markVisited\<close> assigns a field.
\<close>

datatype attribute_call = CallGetToken | CallMarkVisited | CallWasVisited | CallGetType | CallGetData

fun after_call :: "attribute_call \<Rightarrow> ('tok, 'd) attribute \<Rightarrow> ('tok, 'd) attribute" where
  "after_call CallGetToken a = a"
| "after_call CallMarkVisited a = markVisited a"
| "after_call CallWasVisited a = a"
| "after_call CallGetType a = a"
| "after_call CallGetData a = a"


section \<open>Code generation for addition chains (visitor/codegenerator/additionexpression.go)\<close>

text \<open>
  Modelled from the spec: the parser package, generated from the grammar, is not among
  the sources. A chain node has operands \<open>a0 .. ak\<close> and separating operators
  \<open>op1 .. opk\<close>; its getters give them by position, and nil (\<open>None\<close>) past the end.
\<close>

record ('m, 'f) AdditionTreeContext =
  operands :: "'m list"
  factors :: "'f list"

definition AllMultiplicationExpression :: "('m, 'f) AdditionTreeContext \<Rightarrow> 'm list" where
  "AllMultiplicationExpression ctx = operands ctx"

definition MultiplicationExpression :: "('m, 'f) AdditionTreeContext \<Rightarrow> nat \<Rightarrow> 'm option" where
  "MultiplicationExpression ctx i =
     (if i < length (operands ctx) then Some (operands ctx ! i) else None)"

definition AdditionFactor :: "('m, 'f) AdditionTreeContext \<Rightarrow> nat \<Rightarrow> 'f option" where
  "AdditionFactor ctx i =
     (if i < length (factors ctx) then Some (factors ctx ! i) else None)"

text \<open>The node \<open>a0 op1 a1 ... opk ak\<close>, from \<open>a0\<close> and the pairs \<open>(op_i, a_i)\<close>.\<close>

definition chain :: "'m \<Rightarrow> ('f \<times> 'm) list \<Rightarrow> ('m, 'f) AdditionTreeContext" where
  "chain a0 rest = \<lparr>operands = a0 # map snd rest, factors = map fst rest\<rparr>"

text \<open>What \<open>v.Visit\<close> is handed: an operand, a factor, or nil.\<close>

datatype ('m, 'f) child = Operand 'm | Factor 'f

text \<open>
  The visitor's \<open>Visit\<close> and the visit methods of the children are not among the sources:
  \<open>visit\<close> is a parameter, taking the child and the visitor's state to a panic or the new
  state. The loop counter is a Go \<open>int\<close> that starts at 1 and only grows up to a length,
  so it is a \<open>nat\<close> here.
\<close>

function additionLoop ::
  "(('m, 'f) child option \<Rightarrow> 'v \<Rightarrow> panic + 'v) \<Rightarrow> ('m, 'f) AdditionTreeContext \<Rightarrow>
     nat \<Rightarrow> nat \<Rightarrow> 'v \<Rightarrow> panic + 'v" where
  "additionLoop visit ctx totalBranches index v =
     (if index < totalBranches
      then (case visit (map_option Operand (MultiplicationExpression ctx index)) v of
              Inl p \<Rightarrow> Inl p
            | Inr v1 \<Rightarrow>
                (case visit (map_option Factor (AdditionFactor ctx (index - 1))) v1 of
                   Inl p \<Rightarrow> Inl p
                 | Inr v2 \<Rightarrow> additionLoop visit ctx totalBranches (index + 1) v2))
      else Inr v)"
  by pat_completeness auto
termination
  by (relation "measure (\<lambda>(visit, ctx, totalBranches, index, v). totalBranches - index)") auto

declare additionLoop.simps [simp del]

definition VisitAdditionTree ::
  "(('m, 'f) child option \<Rightarrow> 'v \<Rightarrow> panic + 'v) \<Rightarrow> ('m, 'f) AdditionTreeContext \<Rightarrow>
     'v \<Rightarrow> panic + 'v" where
  "VisitAdditionTree visit ctx v =
     (case visit (map_option Operand (MultiplicationExpression ctx 0)) v of
        Inl p \<Rightarrow> Inl p
      | Inr v1 \<Rightarrow> additionLoop visit ctx (length (AllMultiplicationExpression ctx)) 1 v1)"

text \<open>
  Modelled from the spec: the visitor that emits instructions. Visiting an operand
  appends the operand's instructions \<open>code a\<close>, visiting a factor appends its single
  operator instruction \<open>opi f\<close>. What \<open>Visit\<close> does with nil is not in the sources; it is
  a panic here, and the chains below never get there.
\<close>

fun emit :: "('m \<Rightarrow> 'i list) \<Rightarrow> ('f \<Rightarrow> 'i) \<Rightarrow> ('m, 'f) child option \<Rightarrow> 'i list \<Rightarrow> panic + 'i list" where
  "emit code opi None out = Inl NilDereference"
| "emit code opi (Some (Operand a)) out = Inr (out @ code a)"
| "emit code opi (Some (Factor f)) out = Inr (out @ [opi f])"

text \<open>
  The spec's order of visits, \<open>a0, a1, op1, a2, op2, ..., ak, opk\<close>, and the visits of a
  list of children one after the other, until the first panic.
\<close>

definition visitOrder :: "'m \<Rightarrow> ('f \<times> 'm) list \<Rightarrow> ('m, 'f) child list" where
  "visitOrder a0 rest = Operand a0 # concat (map (\<lambda>(f, a). [Operand a, Factor f]) rest)"

fun visitAll :: "(('m, 'f) child option \<Rightarrow> 'v \<Rightarrow> panic + 'v) \<Rightarrow> ('m, 'f) child list \<Rightarrow> 'v \<Rightarrow> panic + 'v" where
  "visitAll visit [] v = Inr v"
| "visitAll visit (c # cs) v =
     (case visit (Some c) v of Inl p \<Rightarrow> Inl p | Inr v' \<Rightarrow> visitAll visit cs v')"

fun is_factor :: "('m, 'f) child \<Rightarrow> bool" where
  "is_factor (Factor f) = True"
| "is_factor (Operand a) = False"


section \<open>The compile and run endpoints (handler/monkey.go)\<close>

text \<open>
  The lists the handlers return are Go slices that the code compares with nil: \<open>None\<close>
  is the nil slice, \<open>Some xs\<close> a slice with the elements \<open>xs\<close>. \<open>len\<close> of nil is 0.
\<close>

definition len_of :: "'a list option \<Rightarrow> nat" where
  "len_of s = (case s of None \<Rightarrow> 0 | Some xs \<Rightarrow> length xs)"

text \<open>
  What an error listener or errors handler answers to \<open>Errors()\<close> and \<open>Lines()\<close> once its
  phase is over.
\<close>

record report =
  Errors :: "string list option"
  Lines :: "int list option"

definition aligned :: "report \<Rightarrow> bool" where
  "aligned r = (len_of (Errors r) = len_of (Lines r))"

text \<open>
  The lexer, the parser, the three visitors and the file system are not among the
  sources. Each is a function of the record \<open>phases\<close>, giving what \<open>parsing\<close> reads of it:
  \<open>parse\<close> the tree and the listener's report, \<open>graphVisit\<close> the tree graph,
  \<open>contextualVisit\<close> the handler's report, \<open>generate\<close> the generator's \<open>Code()\<close>, and
  \<open>writeFile\<close> the error of \<open>ioutil.WriteFile\<close> (\<open>None\<close> for nil, else its message).
\<close>

record ('t, 'g) phases =
  parse :: "string \<Rightarrow> 't \<times> report"
  graphVisit :: "'t \<Rightarrow> 'g"
  contextualVisit :: "'t \<Rightarrow> report"
  generate :: "'t \<Rightarrow> string"
  writeFile :: "string \<Rightarrow> string option"

text \<open>The calls a request makes outside the handler, in the order it makes them.\<close>

datatype effect = EvParse | EvGraph | EvContextual | EvCodegen | EvWriteFile | EvStat | EvExec

definition save :: "('t, 'g) phases \<Rightarrow> string \<Rightarrow> string option" where
  "save ph bytes =
     (case writeFile ph bytes of
        Some e \<Rightarrow> Some (''Failed to save file. '' @ e)
      | None \<Rightarrow> None)"

record 'g compiled =
  errors :: "string list option"
  lines :: "int list option"
  tree :: 'g
  effects :: "effect list"

definition parsing :: "('t, 'g) phases \<Rightarrow> string \<Rightarrow> 'g compiled" where
  "parsing ph program =
     (let (tree, parserErrors) = parse ph program;
          treeGraph = graphVisit ph tree
      in if Errors parserErrors = None
         then (let contextualErrors = contextualVisit ph tree
               in if Errors contextualErrors = None
                  then (case save ph (generate ph tree) of
                          Some err \<Rightarrow>
                            \<lparr>errors = Some [err], lines = Some [], tree = treeGraph,
                             effects = [EvParse, EvGraph, EvContextual, EvCodegen, EvWriteFile]\<rparr>
                        | None \<Rightarrow>
                            \<lparr>errors = Some [], lines = Some [], tree = treeGraph,
                             effects = [EvParse, EvGraph, EvContextual, EvCodegen, EvWriteFile]\<rparr>)
                  else \<lparr>errors = Errors contextualErrors, lines = Lines contextualErrors,
                        tree = treeGraph, effects = [EvParse, EvGraph, EvContextual]\<rparr>)
         else \<lparr>errors = Errors parserErrors, lines = Lines parserErrors,
               tree = treeGraph, effects = [EvParse, EvGraph]\<rparr>)"

text \<open>
  Modelled from the spec: the parser's error listener (package \<open>errors\<close>) and the errors
  handler of the identification table are not among the sources. A handler holds an
  ordered list of error messages and an ordered list of the associated 1-based line
  numbers; each error told to it adds one message and its line number; both lists are
  nil while nothing was told, as Go's \<open>append\<close> on a nil slice gives.
\<close>

definition NewParserErrorListener :: report where
  "NewParserErrorListener = \<lparr>Errors = None, Lines = None\<rparr>"

definition NewErrorsHandler :: report where
  "NewErrorsHandler = \<lparr>Errors = None, Lines = None\<rparr>"

definition appended :: "'a list option \<Rightarrow> 'a \<Rightarrow> 'a list option" where
  "appended s x = Some ((case s of None \<Rightarrow> [] | Some xs \<Rightarrow> xs) @ [x])"

definition addError :: "string \<Rightarrow> int \<Rightarrow> report \<Rightarrow> report" where
  "addError msg line h = \<lparr>Errors = appended (Errors h) msg, Lines = appended (Lines h) line\<rparr>"

fun told :: "(string \<times> int) list \<Rightarrow> report \<Rightarrow> report" where
  "told [] h = h"
| "told ((msg, line) # es) h = told es (addError msg line h)"

text \<open>
  Phases whose reports come from such handlers: \<open>syntaxErrors\<close> gives the tree and the
  errors the lexer and parser tell the listener, \<open>contextErrors\<close> the errors the
  contextual visitor tells its handler, each with its line; the rest is as in \<open>ph\<close>.
\<close>

definition with_handlers ::
  "(string \<Rightarrow> 't \<times> (string \<times> int) list) \<Rightarrow> ('t \<Rightarrow> (string \<times> int) list) \<Rightarrow>
     ('t, 'g) phases \<Rightarrow> ('t, 'g) phases" where
  "with_handlers syntaxErrors contextErrors ph =
     ph\<lparr>parse := (\<lambda>program. (fst (syntaxErrors program),
                      told (snd (syntaxErrors program)) NewParserErrorListener)),
        contextualVisit := (\<lambda>tree. told (contextErrors tree) NewErrorsHandler)\<rparr>"

text \<open>
  Three concrete requests. The program parses and passes contextual analysis, and the
  file system refuses the write; the program uses an undeclared name; all goes well.
\<close>

definition write_refused :: "(unit, unit) phases" where
  "write_refused =
     \<lparr>parse = (\<lambda>p. ((), \<lparr>Errors = None, Lines = None\<rparr>)),
      graphVisit = (\<lambda>t. ()),
      contextualVisit = (\<lambda>t. \<lparr>Errors = None, Lines = None\<rparr>),
      generate = (\<lambda>t. ''PUSH 1''),
      writeFile = (\<lambda>b. Some ''permission denied'')\<rparr>"

definition undeclared_x :: "(unit, unit) phases" where
  "undeclared_x =
     \<lparr>parse = (\<lambda>p. ((), \<lparr>Errors = None, Lines = None\<rparr>)),
      graphVisit = (\<lambda>t. ()),
      contextualVisit = (\<lambda>t. \<lparr>Errors = Some [''undeclared x''], Lines = Some [1]\<rparr>),
      generate = (\<lambda>t. []),
      writeFile = (\<lambda>b. None)\<rparr>"

definition all_fine :: "(unit, unit) phases" where
  "all_fine =
     \<lparr>parse = (\<lambda>p. ((), \<lparr>Errors = None, Lines = None\<rparr>)),
      graphVisit = (\<lambda>t. ()),
      contextualVisit = (\<lambda>t. \<lparr>Errors = None, Lines = None\<rparr>),
      generate = (\<lambda>t. ''PUSH 1''),
      writeFile = (\<lambda>b. None)\<rparr>"

text \<open>
  \<open>run\<close> reads two things: the error of \<open>os.Stat\<close> on the instructions file (\<open>None\<close> for
  nil) and, if it launches the virtual machine, the output and the error of
  \<open>exec.Command(...).Output()\<close>. \<open>strings.TrimSpace\<close> is Go's library: a parameter.
\<close>

record machine =
  stat :: "string option"
  vmOutput :: "string \<times> string option"

definition newline :: string where
  "newline = [CHR 0x0A]"

definition run :: "(string \<Rightarrow> string) \<Rightarrow> machine \<Rightarrow> string \<times> effect list" where
  "run TrimSpace m =
     (case stat m of
        Some err \<Rightarrow>
          (''Instructions code not found. Must compile first.'' @ newline @ TrimSpace err @
             newline @ ''...failed'', [EvStat])
      | None \<Rightarrow>
          (case vmOutput m of
             (out, Some err) \<Rightarrow> (TrimSpace err @ newline @ ''...failed'', [EvStat, EvExec])
           | (out, None) \<Rightarrow>
               (TrimSpace out @ newline @ ''...finished'', [EvStat, EvExec])))"

text \<open>\<open>strings.TrimSpace\<close> on ASCII text, for the concrete runs below.\<close>

definition ascii_space :: "char \<Rightarrow> bool" where
  "ascii_space c = (c \<in> set [CHR 0x09, CHR 0x0A, CHR 0x0B, CHR 0x0C, CHR 0x0D, CHR 0x20])"

definition trim_ascii :: "string \<Rightarrow> string" where
  "trim_ascii s = rev (dropWhile ascii_space (rev (dropWhile ascii_space s)))"


section \<open>Properties of the hash type tracker\<close>

lemma in_step_newHashHelper: "in_step newHashHelper"
  by (simp add: in_step_def newHashHelper_def go_len_def)

lemma in_step_newHash: "in_step h \<Longrightarrow> in_step (newHash grow h)"
  by (simp add: in_step_def newHash_def go_append_def go_len_def)

lemma in_step_setToken: "in_step h \<Longrightarrow> setToken t h = Inr h' \<Longrightarrow> in_step h'"
  by (auto simp: in_step_def setToken_def go_modify_def go_len_def split: if_splits)

lemma in_step_setType: "in_step h \<Longrightarrow> setType k h = Inr h' \<Longrightarrow> in_step h'"
  by (auto simp: in_step_def setType_def go_modify_def go_len_def split: if_splits)

lemma in_step_closeHash: "in_step h \<Longrightarrow> closeHash h = Inr h' \<Longrightarrow> in_step h'"
  by (auto simp: in_step_def closeHash_def go_reslice_def go_len_def go_cap_def
      split: if_splits)

lemma reachable_in_step: "reachable h \<Longrightarrow> in_step h"
  by (induction rule: reachable.induct)
    (auto intro: in_step_newHashHelper in_step_newHash in_step_setToken in_step_setType
      in_step_closeHash)

lemma nat_int_pred: "nat (int n - 1) = n - 1"
  by arith

lemma closeHash_in_step:
  assumes "in_step h" "levels h > -1"
  shows "\<exists>h'. closeHash h = Inr h' \<and> in_step h' \<and> levels h' = levels h - 1 \<and>
     elems (hashs h') = butlast (elems (hashs h))"
proof -
  let ?n = "length (elems (hashs h))"
  have lv: "levels h = int ?n - 1" and pos: "0 < ?n"
    using assms by (simp_all add: in_step_def go_len_def)
  have idx: "nat (levels h) = ?n - 1" using lv by (simp add: nat_int_pred)
  have "go_reslice (hashs h) (levels h) =
      Inr (Slice (butlast (elems (hashs h))) (drop (?n - 1) (elems (hashs h) @ spare (hashs h))))"
    using lv pos idx by (simp add: go_reslice_def go_cap_def butlast_conv_take)
  moreover have "int (length (butlast (elems (hashs h)))) = int ?n - 1"
    using pos by (cases "elems (hashs h)") simp_all
  ultimately show ?thesis
    using lv by (simp add: closeHash_def in_step_def go_len_def del: length_butlast)
qed

lemma getType_in_step:
  assumes "in_step h" "levels h > -1"
  shows "elems (hashs h) \<noteq> [] \<and> getType h = Inr (key (last (elems (hashs h))))"
  using assms
  by (auto simp: in_step_def getType_def go_index_def go_len_def last_conv_nth nat_int_pred)

lemma setType_in_step:
  assumes "in_step h" "levels h > -1"
  shows "\<exists>h'. setType k h = Inr h' \<and> in_step h' \<and> levels h' = levels h \<and> getType h' = Inr k"
proof -
  let ?xs = "elems (hashs h)"
  have lv: "0 \<le> levels h" "levels h < int (length ?xs)"
    using assms unfolding in_step_def go_len_def by linarith+
  have idx: "nat (levels h) < length ?xs"
    using lv by linarith
  let ?s = "Slice (?xs[nat (levels h) := (?xs ! nat (levels h))\<lparr>key := k\<rparr>]) (spare (hashs h))"
  have "go_modify (hashs h) (levels h) (\<lambda>e. e\<lparr>key := k\<rparr>) = Inr ?s"
    using lv by (simp add: go_modify_def go_len_def)
  then have "setType k h = Inr (h\<lparr>hashs := ?s\<rparr>)"
    by (simp add: setType_def)
  moreover have "in_step (h\<lparr>hashs := ?s\<rparr>)"
    using assms(1) by (simp add: in_step_def go_len_def)
  moreover have "getType (h\<lparr>hashs := ?s\<rparr>) = Inr k"
    using lv idx assms(2) by (simp add: getType_def go_index_def go_len_def)
  ultimately show ?thesis by simp
qed

lemma fresh_frame_eq:
  "fresh_frame = \<lparr>levels = 0, hashs = Slice [\<lparr>token = None, key = HUNKNOWN\<rparr>] []\<rparr>"
  by (simp add: fresh_frame_def newHash_def newHashHelper_def go_append_def go_len_def zero_hash_def)

lemma reachable_fresh_frame: "reachable fresh_frame"
  unfolding fresh_frame_def by (rule r_newHash [OF r_new])

lemma reachable_int_frame: "reachable int_frame"
proof -
  have "setType HINTEGER fresh_frame = Inr int_frame"
    by (simp add: fresh_frame_eq int_frame_def setType_def go_modify_def go_len_def)
  with reachable_fresh_frame show ?thesis by (rule r_setType)
qed

subsection \<open>Opening and closing frames\<close>

text \<open>
  A run of \<open>newHash\<close>/\<open>closeHash\<close> calls that closes \<open>d\<close> frames more than it opens, never
  more than it has opened plus \<open>d\<close>, does not panic on a tracker with at least \<open>d\<close> frames
  and cuts the list back by exactly \<open>d\<close> frames.
\<close>

lemma calls_nested:
  "in_step h \<Longrightarrow> nested cs d \<Longrightarrow> d \<le> go_len (hashs h) \<Longrightarrow>
     \<exists>h'. calls grow cs h = Inr h' \<and> in_step h' \<and>
       elems (hashs h') = take (go_len (hashs h) - d) (elems (hashs h))"
proof (induction cs arbitrary: h d)
  case Nil
  then show ?case by (simp add: go_len_def)
next
  case (Cons c cs)
  show ?case
  proof (cases c)
    case NewHash
    let ?h1 = "newHash grow h"
    have len1: "go_len (hashs ?h1) = Suc (go_len (hashs h))"
      and el1: "elems (hashs ?h1) = elems (hashs h) @ [zero_hash]"
      by (simp_all add: newHash_def go_append_def go_len_def)
    have "in_step ?h1" using Cons.prems(1) by (rule in_step_newHash)
    moreover have "nested cs (Suc d)" using Cons.prems(2) NewHash by simp
    moreover have "Suc d \<le> go_len (hashs ?h1)" using Cons.prems(3) len1 by simp
    ultimately obtain h' where h': "calls grow cs ?h1 = Inr h'" "in_step h'"
      "elems (hashs h') = take (go_len (hashs ?h1) - Suc d) (elems (hashs ?h1))"
      using Cons.IH by blast
    have "elems (hashs h') = take (go_len (hashs h) - d) (elems (hashs h))"
      using h'(3) len1 el1 by (simp add: go_len_def)
    then show ?thesis using h' NewHash by simp
  next
    case CloseHash
    have d: "0 < d" and n: "nested cs (d - 1)" using Cons.prems(2) CloseHash by simp_all
    have "levels h > -1" using Cons.prems(1,3) d by (simp add: in_step_def)
    then obtain h1 where h1: "closeHash h = Inr h1" "in_step h1"
      "elems (hashs h1) = butlast (elems (hashs h))"
      using closeHash_in_step [OF Cons.prems(1)] by blast
    have len1: "go_len (hashs h1) = go_len (hashs h) - 1"
      using h1(3) by (simp add: go_len_def)
    have "d - 1 \<le> go_len (hashs h1)" using Cons.prems(3) len1 by simp
    then obtain h' where h': "calls grow cs h1 = Inr h'" "in_step h'"
      "elems (hashs h') = take (go_len (hashs h1) - (d - 1)) (elems (hashs h1))"
      using Cons.IH [OF h1(2) n] by blast
    have "elems (hashs h') = take (go_len (hashs h) - d) (elems (hashs h))"
      using h'(3) len1 h1(3) d Cons.prems(3)
      by (simp add: go_len_def butlast_conv_take min_def)
    then show ?thesis using h' h1(1) CloseHash by simp
  qed
qed

text \<open>
  C2: from every reachable tracker, a balanced sequence of \<open>newHash\<close>/\<open>closeHash\<close> calls
  runs without a panic and leaves \<open>levels\<close>, the length of the frame list and the frames
  themselves as they were before the sequence; in particular \<open>closeHash\<close> right after
  \<open>newHash\<close> gives back the size the list had before the \<open>newHash\<close>.
\<close>

theorem balanced_calls_restore:
  assumes "reachable h"
  shows "(balanced cs \<longrightarrow>
            (\<exists>h'. calls grow cs h = Inr h' \<and> levels h' = levels h \<and>
               go_len (hashs h') = go_len (hashs h) \<and>
               elems (hashs h') = elems (hashs h))) \<and>
         (\<exists>h'. closeHash (newHash grow h) = Inr h' \<and> levels h' = levels h \<and>
               go_len (hashs h') = go_len (hashs h))"
proof -
  have st: "in_step h" using assms by (rule reachable_in_step)
  have gen: "\<exists>h'. calls grow cs h = Inr h' \<and> levels h' = levels h \<and>
               go_len (hashs h') = go_len (hashs h) \<and> elems (hashs h') = elems (hashs h)"
    if nst: "nested cs 0" for cs
  proof -
    obtain h' where h': "calls grow cs h = Inr h'" "in_step h'"
      "elems (hashs h') = take (go_len (hashs h) - 0) (elems (hashs h))"
      using calls_nested [OF st nst, of grow] by auto
    then have "elems (hashs h') = elems (hashs h)" by (simp add: go_len_def)
    moreover from this have "go_len (hashs h') = go_len (hashs h)" by (simp add: go_len_def)
    moreover from this have "levels h' = levels h" using st h'(2) by (simp add: in_step_def)
    ultimately show ?thesis using h'(1) by simp
  qed
  have "nested [NewHash, CloseHash] 0" by simp
  from gen [OF this] have "\<exists>h'. closeHash (newHash grow h) = Inr h' \<and> levels h' = levels h \<and>
               go_len (hashs h') = go_len (hashs h)"
    by (auto split: sum.splits)
  then show ?thesis using gen by (simp add: balanced_def)
qed

theorem balanced_calls_restore_witness:
  "reachable int_frame \<and> balanced [NewHash, NewHash, CloseHash, NewHash, CloseHash, CloseHash] \<and>
   (\<exists>h'. calls (\<lambda>n. n) [NewHash, NewHash, CloseHash, NewHash, CloseHash, CloseHash] int_frame = Inr h' \<and>
      levels h' = 0 \<and> go_len (hashs h') = 1 \<and> elems (hashs h') = elems (hashs int_frame)) \<and>
   (\<exists>h'. closeHash (newHash (\<lambda>n. n) int_frame) = Inr h' \<and> levels h' = 0 \<and> go_len (hashs h') = 1)"
proof -
  have b: "balanced [NewHash, NewHash, CloseHash, NewHash, CloseHash, CloseHash]"
    by (simp add: balanced_def)
  have l: "levels int_frame = 0" "go_len (hashs int_frame) = 1"
    by (simp_all add: int_frame_def go_len_def)
  show ?thesis
    using balanced_calls_restore [OF reachable_int_frame,
        of "[NewHash, NewHash, CloseHash, NewHash, CloseHash, CloseHash]" "\<lambda>n. n"]
      reachable_int_frame b l
    by simp
qed

subsection \<open>The guards of the methods\<close>

text \<open>
  C4: on a tracker with no open frame (\<open>levels = -1\<close>) \<open>getType\<close> returns \<open>HCOMPLEX\<close> and
  does not panic; on a reachable tracker with an open frame it returns the key type of the
  top frame, the last of the list.
\<close>

theorem getType_guarded:
  "(levels h = -1 \<longrightarrow> getType h = Inr HCOMPLEX) \<and>
   (reachable h \<and> levels h > -1 \<longrightarrow>
      elems (hashs h) \<noteq> [] \<and> getType h = Inr (key (last (elems (hashs h)))))"
  using getType_in_step [of h] reachable_in_step [of h]
  by (simp add: getType_def)

theorem getType_guarded_witness:
  "levels (newHashHelper :: string hashHelper) = -1 \<and>
   getType (newHashHelper :: string hashHelper) = Inr HCOMPLEX \<and>
   reachable int_frame \<and> levels int_frame > -1 \<and> getType int_frame = Inr HINTEGER"
  using getType_guarded [of "newHashHelper :: string hashHelper"]
    getType_guarded [of int_frame] reachable_int_frame
  by (simp add: newHashHelper_def int_frame_def)

text \<open>
  C7: \<open>closeHash\<close> on a tracker with no open frame (\<open>levels = -1\<close>) panics, on the slice
  bounds; it neither returns an error value nor leaves the tracker as it is. On a
  reachable tracker with an open frame it does not panic, and removes the last frame.
\<close>

theorem closeHash_guard:
  "(levels h = -1 \<longrightarrow> closeHash h = Inl SliceBoundsOutOfRange) \<and>
   (reachable h \<and> levels h > -1 \<longrightarrow>
      (\<exists>h'. closeHash h = Inr h' \<and> levels h' = levels h - 1 \<and>
         elems (hashs h') = butlast (elems (hashs h))))"
  using closeHash_in_step [of h] reachable_in_step [of h]
  by (auto simp: closeHash_def go_reslice_def)

theorem closeHash_guard_witness:
  "levels (newHashHelper :: string hashHelper) = -1 \<and>
   closeHash (newHashHelper :: string hashHelper) = Inl SliceBoundsOutOfRange \<and>
   reachable int_frame \<and> levels int_frame > -1 \<and>
   (\<exists>h'. closeHash int_frame = Inr h' \<and> levels h' = -1 \<and> elems (hashs h') = [])"
  using closeHash_guard [of "newHashHelper :: string hashHelper"]
    closeHash_guard [of int_frame] reachable_int_frame
  by (simp add: newHashHelper_def int_frame_def)

text \<open>
  C9: on a tracker with no open frame (\<open>levels = -1\<close>), \<open>getToken\<close> and \<open>setType\<close> panic
  with an index out of range, while \<open>getType\<close> answers \<open>HCOMPLEX\<close> and \<open>setToken\<close> leaves
  the tracker as it is.
\<close>

theorem no_frame_getToken_setType_panic:
  "levels h = -1 \<Longrightarrow>
     getToken h = Inl IndexOutOfRange \<and> setType k h = Inl IndexOutOfRange \<and>
     getType h = Inr HCOMPLEX \<and> setToken t h = Inr h"
  by (simp add: getToken_def setType_def getType_def setToken_def go_index_def go_modify_def)

theorem no_frame_getToken_setType_panic_witness:
  "levels (newHashHelper :: string hashHelper) = -1 \<and>
   getToken (newHashHelper :: string hashHelper) = Inl IndexOutOfRange \<and>
   setType HSTRING (newHashHelper :: string hashHelper) = Inl IndexOutOfRange \<and>
   getType (newHashHelper :: string hashHelper) = Inr HCOMPLEX \<and>
   setToken (Some ''{'') (newHashHelper :: string hashHelper) = Inr newHashHelper"
  using no_frame_getToken_setType_panic [of "newHashHelper :: string hashHelper" HSTRING "Some ''{''"]
  by (simp add: newHashHelper_def)

subsection \<open>Observing key types\<close>

lemma typeAfter_last:
  "in_step h \<Longrightarrow> levels h > -1 \<Longrightarrow> ks \<noteq> [] \<Longrightarrow> typeAfter ks h = Inr (last ks)"
proof (induction ks arbitrary: h)
  case Nil
  then show ?case by simp
next
  case (Cons k ks)
  obtain h' where h': "setType k h = Inr h'" "in_step h'" "levels h' = levels h"
    "getType h' = Inr k"
    using setType_in_step [OF Cons.prems(1,2)] by blast
  show ?case
  proof (cases "ks = []")
    case True
    then show ?thesis using h' by (simp add: typeAfter_def)
  next
    case False
    then have "typeAfter ks h' = Inr (last ks)"
      using Cons.IH [OF h'(2)] h'(3) Cons.prems(2) by simp
    then show ?thesis using h'(1) False by (simp add: typeAfter_def)
  qed
qed

text \<open>
  C5 as stated fails: \<open>setType\<close> stores the type it is given. On a frame just opened,
  observing Integer, Integer, String leaves String, not Complex; the same types in the
  order String, Integer, Integer leave Integer; and Integer observed after Complex
  leaves Integer.
\<close>

theorem setType_is_not_a_join:
  "typeAfter [HINTEGER, HINTEGER, HSTRING] fresh_frame = Inr HSTRING \<and>
   typeAfter [HINTEGER, HINTEGER, HSTRING] fresh_frame \<noteq> Inr HCOMPLEX \<and>
   typeAfter [HSTRING, HINTEGER, HINTEGER] fresh_frame = Inr HINTEGER \<and>
   typeAfter [HCOMPLEX, HINTEGER] fresh_frame = Inr HINTEGER"
  by (simp add: typeAfter_def fresh_frame_eq setType_def getType_def go_modify_def
      go_index_def go_len_def)

text \<open>
  C5, amended: on a reachable tracker with an open frame, after any non-empty sequence of
  \<open>setType\<close> calls the frame holds the last type observed; observing only Integer,
  Integer yields Integer.
\<close>

theorem setType_overwrites:
  assumes "reachable h" "levels h > -1"
  shows "(ks \<noteq> [] \<longrightarrow> typeAfter ks h = Inr (last ks)) \<and>
         typeAfter [HINTEGER, HINTEGER] h = Inr HINTEGER"
  using typeAfter_last [OF reachable_in_step [OF assms(1)] assms(2)] by simp

theorem setType_overwrites_witness:
  "reachable fresh_frame \<and> levels fresh_frame > -1 \<and>
   [HSTRING, HINTEGER, HINTEGER] \<noteq> [] \<and>
   typeAfter [HSTRING, HINTEGER, HINTEGER] fresh_frame = Inr HINTEGER \<and>
   typeAfter [HINTEGER, HINTEGER] fresh_frame = Inr HINTEGER"
  using setType_overwrites [OF reachable_fresh_frame, of "[HSTRING, HINTEGER, HINTEGER]"]
    reachable_fresh_frame
  by (simp add: fresh_frame_eq)

section \<open>Properties of the attribute\<close>

lemma after_call_keeps_visited: "visited a \<Longrightarrow> visited (after_call c a)"
  by (cases c) (simp_all add: markVisited_def)

lemma after_calls_keep_visited: "visited a \<Longrightarrow> visited (fold after_call cs a)"
  by (induction cs arbitrary: a) (simp_all add: after_call_keeps_visited)

text \<open>
  C8: an attribute is created with \<open>visited = false\<close>; \<open>markVisited\<close> is idempotent and
  sets the flag; a call that changes the attribute at all is \<open>markVisited\<close>; no call
  takes the flag from true to false; so after the first mark, whatever calls follow,
  \<open>wasVisited\<close> answers true.
\<close>

theorem visited_only_rises:
  "wasVisited (NewAttribute e t d) = False \<and>
   markVisited (markVisited a) = markVisited a \<and>
   wasVisited (markVisited a) = True \<and>
   (after_call c a \<noteq> a \<longrightarrow> c = CallMarkVisited) \<and>
   (wasVisited a \<longrightarrow> wasVisited (after_call c a)) \<and>
   wasVisited (fold after_call cs (markVisited a)) = True"
proof -
  have "visited (markVisited a)" by (simp add: markVisited_def)
  then have "visited (fold after_call cs (markVisited a))" by (rule after_calls_keep_visited)
  moreover have "after_call c a \<noteq> a \<longrightarrow> c = CallMarkVisited" by (cases c) simp_all
  ultimately show ?thesis
    using after_call_keeps_visited [of a c]
    by (simp add: wasVisited_def NewAttribute_def markVisited_def)
qed

theorem visited_only_rises_witness:
  "wasVisited (NewAttribute IDENTIFIER (Some ''x'') (None :: unit option)) = False \<and>
   after_call CallMarkVisited (NewAttribute IDENTIFIER (Some ''x'') (None :: unit option))
     \<noteq> NewAttribute IDENTIFIER (Some ''x'') None \<and>
   wasVisited (markVisited (NewAttribute IDENTIFIER (Some ''x'') (None :: unit option))) \<and>
   wasVisited (after_call CallGetData (markVisited (NewAttribute IDENTIFIER (Some ''x'') (None :: unit option)))) \<and>
   wasVisited (fold after_call [CallWasVisited, CallMarkVisited, CallGetToken]
     (markVisited (NewAttribute IDENTIFIER (Some ''x'') (None :: unit option)))) = True"
  using visited_only_rises [of IDENTIFIER "Some ''x''" "None :: unit option"
      "NewAttribute IDENTIFIER (Some ''x'') (None :: unit option)" CallMarkVisited
      "[CallWasVisited, CallMarkVisited, CallGetToken]"]
    visited_only_rises [of IDENTIFIER "Some ''x''" "None :: unit option"
      "markVisited (NewAttribute IDENTIFIER (Some ''x'') (None :: unit option))" CallGetData "[]"]
  by (simp add: NewAttribute_def markVisited_def)


section \<open>Properties of the addition chain\<close>

text \<open>From the counter value \<open>i + 1\<close> on, the loop visits the pairs from position \<open>i\<close> on.\<close>

lemma loop_drop:
  "i \<le> length rest \<Longrightarrow>
     additionLoop visit (chain a0 rest) (Suc (length rest)) (Suc i) v =
       visitAll visit (concat (map (\<lambda>(f, a). [Operand a, Factor f]) (drop i rest))) v"
proof (induction "length rest - i" arbitrary: i v)
  case 0
  then show ?case by (simp add: additionLoop.simps)
next
  case (Suc n)
  then have i: "i < length rest" by simp
  then have d: "drop i rest = rest ! i # drop (Suc i) rest"
    by (simp add: Cons_nth_drop_Suc)
  obtain f a where fa: "rest ! i = (f, a)" by (cases "rest ! i")
  have m: "MultiplicationExpression (chain a0 rest) (Suc i) = Some a"
    using i fa by (simp add: MultiplicationExpression_def chain_def)
  have af: "AdditionFactor (chain a0 rest) i = Some f"
    using i fa by (simp add: AdditionFactor_def chain_def)
  have IH: "\<And>v. additionLoop visit (chain a0 rest) (Suc (length rest)) (Suc (Suc i)) v =
       visitAll visit (concat (map (\<lambda>(f, a). [Operand a, Factor f]) (drop (Suc i) rest))) v"
    using Suc.hyps(1) [of "Suc i"] Suc.hyps(2) i by simp
  show ?case
    using i by (subst additionLoop.simps) (simp add: m af d fa IH split: sum.splits)
qed

lemma VisitAdditionTree_order:
  "VisitAdditionTree visit (chain a0 rest) v = visitAll visit (visitOrder a0 rest) v"
proof -
  have "MultiplicationExpression (chain a0 rest) 0 = Some a0"
    by (simp add: MultiplicationExpression_def chain_def)
  moreover have "length (AllMultiplicationExpression (chain a0 rest)) = Suc (length rest)"
    by (simp add: AllMultiplicationExpression_def chain_def)
  ultimately show ?thesis
    using loop_drop [of 0 rest visit a0]
    by (simp add: VisitAdditionTree_def visitOrder_def split: sum.splits)
qed

lemma visitAll_emit:
  "visitAll (emit code opi) (concat (map (\<lambda>(f, a). [Operand a, Factor f]) rest)) out =
     Inr (out @ concat (map (\<lambda>(f, a). code a @ [opi f]) rest))"
  by (induction rest arbitrary: out) auto

lemma count_factors:
  "length (filter is_factor (concat (map (\<lambda>(f, a). [Operand a, Factor f]) rest))) = length rest"
  by (induction rest) auto

text \<open>
  C1: on the chain node with operands \<open>a0 .. ak\<close> and operators \<open>op1 .. opk\<close>,
  \<open>VisitAdditionTree\<close> visits \<open>a0, a1, op1, a2, op2, ..., ak, opk\<close> in this order, whatever
  the visitor does at each child; with the emitting visitor the instruction stream is
  \<open>code a0\<close>, then for each \<open>i\<close> from 1 to \<open>k\<close> the code of \<open>a_i\<close> followed by the one
  instruction of \<open>op_i\<close>; and the visits hold exactly \<open>k\<close> operators.
\<close>

theorem VisitAdditionTree_stream:
  "VisitAdditionTree visit (chain a0 rest) v = visitAll visit (visitOrder a0 rest) v \<and>
   VisitAdditionTree (emit code opi) (chain a0 rest) out =
     Inr (out @ code a0 @ concat (map (\<lambda>(f, a). code a @ [opi f]) rest)) \<and>
   length (filter is_factor (visitOrder a0 rest)) = length rest"
  using visitAll_emit [of code opi rest "out @ code a0"]
  by (simp add: VisitAdditionTree_order count_factors) (simp add: visitOrder_def count_factors)

theorem VisitAdditionTree_stream_witness:
  "VisitAdditionTree (emit (\<lambda>a. [a]) (\<lambda>f. f)) (chain ''push 1'' [(''add'', ''push 2''), (''sub'', ''push 3'')]) [] =
     Inr [''push 1'', ''push 2'', ''add'', ''push 3'', ''sub''] \<and>
   length (filter is_factor (visitOrder ''push 1'' [(''add'', ''push 2''), (''sub'', ''push 3'')])) = 2"
  using VisitAdditionTree_stream [of "emit (\<lambda>a. [a]) (\<lambda>f. f)" "''push 1''"
      "[(''add'', ''push 2''), (''sub'', ''push 3'')]" "[]" "\<lambda>a. [a]" "\<lambda>f. f" "[]"]
  by (simp add: visitOrder_def)


section \<open>Properties of the compile endpoint\<close>

text \<open>
  C3 as stated fails: when the program parses and passes contextual analysis and the
  write of the instructions is refused, \<open>parsing\<close> returns one error message and no line
  number.
\<close>

theorem save_failure_misaligned:
  "errors (parsing write_refused ''1 + 2'') = Some [''Failed to save file. permission denied''] \<and>
   lines (parsing write_refused ''1 + 2'') = Some [] \<and>
   len_of (errors (parsing write_refused ''1 + 2'')) \<noteq> len_of (lines (parsing write_refused ''1 + 2''))"
  by (simp add: parsing_def write_refused_def save_def len_of_def)

text \<open>
  Told a list of errors, a new handler holds their messages and their lines, in order;
  told nothing, it holds two nil lists.
\<close>

lemma told_some:
  "told es \<lparr>Errors = Some ms, Lines = Some ls\<rparr> =
     \<lparr>Errors = Some (ms @ map fst es), Lines = Some (ls @ map snd es)\<rparr>"
  by (induction es arbitrary: ms ls) (auto simp: addError_def appended_def)

lemma told_nil_handler:
  "told es \<lparr>Errors = None, Lines = None\<rparr> =
     (if es = [] then \<lparr>Errors = None, Lines = None\<rparr>
      else \<lparr>Errors = Some (map fst es), Lines = Some (map snd es)\<rparr>)"
  by (cases es) (auto simp: addError_def appended_def told_some)

lemma told_aligned:
  "aligned (told es NewParserErrorListener)" "aligned (told es NewErrorsHandler)"
  by (simp_all add: NewParserErrorListener_def NewErrorsHandler_def told_nil_handler
      aligned_def len_of_def)

text \<open>
  C3, amended: for every compile request in which the write of the instructions does
  not fail, the two lists \<open>parsing\<close> returns have equal length, and on the two error
  paths they are the messages and the lines of the errors told to the handler, index by
  index; when the write fails they are the one message \<open>Failed to save file.\<close> followed
  by the write's error, and the empty list of lines; on a fully successful compilation
  both lists are empty.
\<close>

theorem parsing_lists:
  "(EvWriteFile \<notin> set (effects (parsing (with_handlers syn ctx ph) program)) \<or>
      writeFile ph (generate ph (fst (syn program))) = None \<longrightarrow>
    len_of (errors (parsing (with_handlers syn ctx ph) program)) =
      len_of (lines (parsing (with_handlers syn ctx ph) program))) \<and>
   (snd (syn program) \<noteq> [] \<longrightarrow>
    errors (parsing (with_handlers syn ctx ph) program) = Some (map fst (snd (syn program))) \<and>
    lines (parsing (with_handlers syn ctx ph) program) = Some (map snd (snd (syn program)))) \<and>
   (snd (syn program) = [] \<and> ctx (fst (syn program)) \<noteq> [] \<longrightarrow>
    errors (parsing (with_handlers syn ctx ph) program) = Some (map fst (ctx (fst (syn program)))) \<and>
    lines (parsing (with_handlers syn ctx ph) program) = Some (map snd (ctx (fst (syn program))))) \<and>
   (EvWriteFile \<in> set (effects (parsing (with_handlers syn ctx ph) program)) \<and>
      writeFile ph (generate ph (fst (syn program))) = Some e \<longrightarrow>
    errors (parsing (with_handlers syn ctx ph) program) = Some [''Failed to save file. '' @ e] \<and>
    lines (parsing (with_handlers syn ctx ph) program) = Some []) \<and>
   (snd (syn program) = [] \<and> ctx (fst (syn program)) = [] \<and>
      writeFile ph (generate ph (fst (syn program))) = None \<longrightarrow>
    errors (parsing (with_handlers syn ctx ph) program) = Some [] \<and>
    lines (parsing (with_handlers syn ctx ph) program) = Some [])"
proof -
  obtain t ps where s: "syn program = (t, ps)" by (cases "syn program")
  show ?thesis
  proof (cases "ps = []")
    case False
    then show ?thesis using s
      by (simp add: parsing_def with_handlers_def NewParserErrorListener_def
          told_nil_handler len_of_def)
  next
    case True
    show ?thesis
    proof (cases "ctx t = []")
      case False
      then show ?thesis using s True
        by (simp add: parsing_def with_handlers_def NewParserErrorListener_def
            NewErrorsHandler_def told_nil_handler len_of_def)
    next
      case c: True
      show ?thesis
      proof (cases "writeFile ph (generate ph t)")
        case None
        then show ?thesis using s True c
          by (simp add: parsing_def with_handlers_def NewParserErrorListener_def
              NewErrorsHandler_def save_def len_of_def)
      next
        case (Some w)
        then show ?thesis using s True c
          by (simp add: parsing_def with_handlers_def NewParserErrorListener_def
              NewErrorsHandler_def save_def len_of_def)
      qed
    qed
  qed
qed

theorem parsing_lists_witness:
  "errors (parsing (with_handlers (\<lambda>p. ((), [(''mismatched input'', 1), (''missing ;'', 2)]))
      (\<lambda>t. []) all_fine) ''let = ; 1 +'') = Some [''mismatched input'', ''missing ;''] \<and>
   lines (parsing (with_handlers (\<lambda>p. ((), [(''mismatched input'', 1), (''missing ;'', 2)]))
      (\<lambda>t. []) all_fine) ''let = ; 1 +'') = Some [1, 2] \<and>
   errors (parsing (with_handlers (\<lambda>p. ((), [])) (\<lambda>t. [(''undeclared x'', 1)]) all_fine) ''x + 1'')
     = Some [''undeclared x''] \<and>
   lines (parsing (with_handlers (\<lambda>p. ((), [])) (\<lambda>t. [(''undeclared x'', 1)]) all_fine) ''x + 1'')
     = Some [1] \<and>
   len_of (errors (parsing (with_handlers (\<lambda>p. ((), [])) (\<lambda>t. [(''undeclared x'', 1)]) all_fine) ''x + 1''))
     = len_of (lines (parsing (with_handlers (\<lambda>p. ((), [])) (\<lambda>t. [(''undeclared x'', 1)]) all_fine) ''x + 1'')) \<and>
   EvWriteFile \<in> set (effects (parsing (with_handlers (\<lambda>p. ((), [])) (\<lambda>t. []) write_refused) ''1 + 2'')) \<and>
   errors (parsing (with_handlers (\<lambda>p. ((), [])) (\<lambda>t. []) write_refused) ''1 + 2'')
     = Some [''Failed to save file. permission denied''] \<and>
   lines (parsing (with_handlers (\<lambda>p. ((), [])) (\<lambda>t. []) write_refused) ''1 + 2'') = Some [] \<and>
   errors (parsing (with_handlers (\<lambda>p. ((), [])) (\<lambda>t. []) all_fine) ''1 + 2'') = Some [] \<and>
   lines (parsing (with_handlers (\<lambda>p. ((), [])) (\<lambda>t. []) all_fine) ''1 + 2'') = Some []"
proof -
  have w: "writeFile write_refused (generate write_refused ()) = Some ''permission denied''"
    "writeFile all_fine (generate all_fine ()) = None"
    by (simp_all add: write_refused_def all_fine_def)
  have e: "EvWriteFile \<in> set (effects (parsing (with_handlers (\<lambda>p. ((), [])) (\<lambda>t. []) write_refused) ''1 + 2''))"
    "EvWriteFile \<notin> set (effects (parsing (with_handlers (\<lambda>p. ((), [])) (\<lambda>t. [(''undeclared x'', 1)]) all_fine) ''x + 1''))"
    by (simp_all add: parsing_def with_handlers_def write_refused_def all_fine_def save_def
        NewParserErrorListener_def NewErrorsHandler_def addError_def appended_def)
  show ?thesis
    using parsing_lists [of "\<lambda>p. ((), [(''mismatched input'', 1), (''missing ;'', 2)])"
        "\<lambda>t. []" all_fine "''let = ; 1 +''" "[]"]
      parsing_lists [of "\<lambda>p. ((), [])" "\<lambda>t. [(''undeclared x'', 1)]" all_fine "''x + 1''" "[]"]
      parsing_lists [of "\<lambda>p. ((), [])" "\<lambda>t. []" write_refused "''1 + 2''" "''permission denied''"]
      parsing_lists [of "\<lambda>p. ((), [])" "\<lambda>t. []" all_fine "''1 + 2''" "[]"]
      w e
    by (simp add: len_of_def)
qed

text \<open>
  C6: the code generator runs exactly when neither the parser's listener nor the
  contextual handler has errors; for every program whose contextual analysis gives a
  non-empty error list it does not run.
\<close>

theorem codegen_gate:
  "(EvCodegen \<in> set (effects (parsing ph program)) \<longleftrightarrow>
      Errors (snd (parse ph program)) = None \<and>
      Errors (contextualVisit ph (fst (parse ph program))) = None) \<and>
   (0 < len_of (Errors (contextualVisit ph (fst (parse ph program)))) \<longrightarrow>
      EvCodegen \<notin> set (effects (parsing ph program)))"
  by (auto simp: parsing_def save_def len_of_def Let_def split: prod.splits option.splits)

theorem codegen_gate_witness:
  "0 < len_of (Errors (contextualVisit undeclared_x (fst (parse undeclared_x ''x + 1'')))) \<and>
   EvCodegen \<notin> set (effects (parsing undeclared_x ''x + 1'')) \<and>
   Errors (snd (parse all_fine ''1 + 2'')) = None \<and>
   Errors (contextualVisit all_fine (fst (parse all_fine ''1 + 2''))) = None \<and>
   EvCodegen \<in> set (effects (parsing all_fine ''1 + 2''))"
proof -
  have a: "0 < len_of (Errors (contextualVisit undeclared_x (fst (parse undeclared_x ''x + 1''))))"
    by (simp add: undeclared_x_def len_of_def)
  have g: "Errors (snd (parse all_fine ''1 + 2'')) = None"
    "Errors (contextualVisit all_fine (fst (parse all_fine ''1 + 2''))) = None"
    by (simp_all add: all_fine_def)
  have "EvCodegen \<notin> set (effects (parsing undeclared_x ''x + 1''))"
    using codegen_gate [of undeclared_x "''x + 1''"] a by blast
  moreover have "EvCodegen \<in> set (effects (parsing all_fine ''1 + 2''))"
    using codegen_gate [of all_fine "''1 + 2''"] g by blast
  ultimately show ?thesis using a g by blast
qed


section \<open>Properties of the run endpoint\<close>

lemma not_both_endings:
  "\<not> (suffix ''...failed'' r \<and> suffix ''...finished'' r)"
proof
  assume "suffix ''...failed'' r \<and> suffix ''...finished'' r"
  then have "suffix ''...failed'' ''...finished'' \<or> suffix ''...finished'' ''...failed''"
    using suffix_same_cases by blast
  then show False by (simp add: suffix_to_prefix)
qed

lemma suffix_app2: "suffix z (a @ b @ z)"
  by (intro suffix_appendI suffix_order.refl)

lemma suffix_app4: "suffix z (a @ b @ c @ d @ z)"
  by (intro suffix_appendI suffix_order.refl)

text \<open>
  C10: when \<open>os.Stat\<close> fails on the instructions file, \<open>run\<close> returns the message
  \<open>Instructions code not found. Must compile first.\<close>, the trimmed error and
  \<open>...failed\<close>, and does not launch the virtual machine. Every result of \<open>run\<close> ends in
  exactly one of \<open>...finished\<close>, when the file is there and the machine ran without an
  error, and \<open>...failed\<close>, when the file is missing or the machine returned an error.
\<close>

theorem run_endings:
  "(stat m = Some err \<longrightarrow>
      fst (run TrimSpace m) =
        ''Instructions code not found. Must compile first.'' @ newline @ TrimSpace err @
          newline @ ''...failed'' \<and>
      sublist ''Instructions code not found. Must compile first.'' (fst (run TrimSpace m)) \<and>
      suffix ''...failed'' (fst (run TrimSpace m)) \<and>
      EvExec \<notin> set (snd (run TrimSpace m))) \<and>
   (suffix ''...finished'' (fst (run TrimSpace m)) \<and>
      \<not> suffix ''...failed'' (fst (run TrimSpace m)) \<and>
      stat m = None \<and> snd (vmOutput m) = None \<and> EvExec \<in> set (snd (run TrimSpace m))
    \<or>
    suffix ''...failed'' (fst (run TrimSpace m)) \<and>
      \<not> suffix ''...finished'' (fst (run TrimSpace m)) \<and>
      (stat m \<noteq> None \<or> snd (vmOutput m) \<noteq> None))"
proof -
  let ?r = "fst (run TrimSpace m)"
  let ?msg = "''Instructions code not found. Must compile first.''"
  have missing: "?r = ?msg @ newline @ TrimSpace e @ newline @ ''...failed'' \<and>
      sublist ?msg ?r \<and> suffix ''...failed'' ?r \<and> EvExec \<notin> set (snd (run TrimSpace m))"
    if s: "stat m = Some e" for e
  proof -
    have r: "?r = ?msg @ newline @ TrimSpace e @ newline @ ''...failed''"
      using s by (simp add: run_def)
    have "prefix ?msg ?r" unfolding r by (rule prefixI) (rule refl)
    then have "sublist ?msg ?r" by (rule prefix_imp_sublist)
    moreover have "suffix ''...failed'' ?r"
      unfolding r by (rule suffix_app4)
    moreover have "EvExec \<notin> set (snd (run TrimSpace m))" using s by (simp add: run_def)
    ultimately show ?thesis using r by blast
  qed
  have cases: "(suffix ''...finished'' ?r \<and> stat m = None \<and> snd (vmOutput m) = None \<and>
        EvExec \<in> set (snd (run TrimSpace m))) \<or>
      (suffix ''...failed'' ?r \<and> (stat m \<noteq> None \<or> snd (vmOutput m) \<noteq> None))"
  proof (cases "stat m")
    case (Some e)
    then show ?thesis using missing [OF Some] by blast
  next
    case None
    obtain out ve where v: "vmOutput m = (out, ve)" by (cases "vmOutput m")
    show ?thesis
    proof (cases ve)
      case None': None
      have r: "?r = TrimSpace out @ newline @ ''...finished''"
        using None v None' by (simp add: run_def)
      have "suffix ''...finished'' ?r" unfolding r by (rule suffix_app2)
      moreover have "EvExec \<in> set (snd (run TrimSpace m))"
        using None v None' by (simp add: run_def)
      ultimately show ?thesis using None v None' by simp
    next
      case (Some e)
      have r: "?r = TrimSpace e @ newline @ ''...failed''"
        using None v Some by (simp add: run_def)
      have "suffix ''...failed'' ?r" unfolding r by (rule suffix_app2)
      then show ?thesis using v Some by simp
    qed
  qed
  show ?thesis using missing cases not_both_endings [of ?r] by blast
qed

theorem run_endings_witness:
  "stat \<lparr>stat = Some ''stat instructions.mky: no such file or directory '', vmOutput = ([], None)\<rparr>
     = Some ''stat instructions.mky: no such file or directory '' \<and>
   fst (run trim_ascii \<lparr>stat = Some ''stat instructions.mky: no such file or directory '', vmOutput = ([], None)\<rparr>) =
     ''Instructions code not found. Must compile first.'' @ newline @
     ''stat instructions.mky: no such file or directory'' @ newline @ ''...failed'' \<and>
   EvExec \<notin> set (snd (run trim_ascii \<lparr>stat = Some ''stat instructions.mky: no such file or directory '', vmOutput = ([], None)\<rparr>)) \<and>
   suffix ''...finished'' (fst (run trim_ascii \<lparr>stat = None, vmOutput = (''3 '', None)\<rparr>)) \<and>
   suffix ''...failed'' (fst (run trim_ascii \<lparr>stat = None, vmOutput = ([], Some ''exit status 2'')\<rparr>))"
  using run_endings [of "\<lparr>stat = Some ''stat instructions.mky: no such file or directory '', vmOutput = ([], None)\<rparr>"
      "''stat instructions.mky: no such file or directory ''" trim_ascii]
    run_endings [of "\<lparr>stat = None, vmOutput = (''3 '', None)\<rparr>" "[]" trim_ascii]
    run_endings [of "\<lparr>stat = None, vmOutput = ([], Some ''exit status 2'')\<rparr>" "[]" trim_ascii]
  by (simp add: trim_ascii_def ascii_space_def)

end
